theory Spec2Isabelle
  imports Main
begin

section \<open>Python strings\<close>

text \<open>
  The script \<^verbatim>\<open>gen.py\<close> works on Python \<^verbatim>\<open>str\<close> values, which are sequences of
  Unicode code points. A code point is a natural number here and a string a list of
  them, so that \<^verbatim>\<open>len\<close>, slicing and the regular expressions of the source count what
  Python counts. \<open>str\<close> turns an ASCII literal of the source into such a list.
\<close>

type_synonym codepoint = nat
type_synonym pystr = "codepoint list"
type_synonym bytes = "nat list"

definition str :: "string \<Rightarrow> pystr" where
  "str = map of_char"

abbreviation dash :: codepoint where
  "dash \<equiv> 45"

text \<open>The character class \<^verbatim>\<open>[a-z0-9]\<close> of the two regular expressions.\<close>

definition az09 :: "codepoint \<Rightarrow> bool" where
  "az09 c = ((97 \<le> c \<and> c \<le> 122) \<or> (48 \<le> c \<and> c \<le> 57))"

text \<open>
  The code points \<^verbatim>\<open>str.strip()\<close> removes when called without an argument: the ones
  \<^verbatim>\<open>str.isspace()\<close> accepts (U+0009..U+000D, U+001C..U+0020, U+0085, U+00A0, U+1680,
  U+2000..U+200A, U+2028, U+2029, U+202F, U+205F, U+3000).
\<close>

definition isspace :: "codepoint \<Rightarrow> bool" where
  "isspace c =
     ((9 \<le> c \<and> c \<le> 13) \<or> (28 \<le> c \<and> c \<le> 32) \<or> c = 133 \<or> c = 160 \<or> c = 5760
      \<or> (8192 \<le> c \<and> c \<le> 8202) \<or> c = 8232 \<or> c = 8233 \<or> c = 8239 \<or> c = 8287
      \<or> c = 12288)"

text \<open>
  \<^verbatim>\<open>str.lower()\<close>. The ASCII capitals go to their small letters. Two further code
  points have a lower case that contains an ASCII letter: U+0130 (capital I with dot
  above) becomes \<^verbatim>\<open>i\<close> followed by U+0307, and U+212A (the Kelvin sign) becomes
  \<^verbatim>\<open>k\<close>. Every other code point lower-cases to code points outside ASCII that are
  not white space, or to itself; \<open>slugify\<close> only ever asks of a lowered code point
  whether it is white space and whether it lies in \<^verbatim>\<open>[a-z0-9]\<close>, so those code points
  are kept as they are.
\<close>

definition lower_cp :: "codepoint \<Rightarrow> pystr" where
  "lower_cp c =
     (if 65 \<le> c \<and> c \<le> 90 then [c + 32]
      else if c = 304 then [105, 775]
      else if c = 8490 then [107]
      else [c])"

definition lower :: "pystr \<Rightarrow> pystr" where
  "lower s = concat (map lower_cp s)"

text \<open>\<^verbatim>\<open>s.strip()\<close> and \<^verbatim>\<open>s.strip("-")\<close>: drop the code points in \<open>P\<close> at both ends.\<close>

definition strip :: "(codepoint \<Rightarrow> bool) \<Rightarrow> pystr \<Rightarrow> pystr" where
  "strip P s = rev (dropWhile P (rev (dropWhile P s)))"

text \<open>
  \<^verbatim>\<open>re.sub(r"[^a-z0-9]+", "-", text)\<close>: scanning from the left, every maximal run of
  code points outside \<^verbatim>\<open>[a-z0-9]\<close> is replaced by one dash.
\<close>

function sub_non_alnum :: "pystr \<Rightarrow> pystr" where
  "sub_non_alnum [] = []"
| "sub_non_alnum (c # cs) =
     (if az09 c then c # sub_non_alnum cs
      else dash # sub_non_alnum (dropWhile (\<lambda>d. \<not> az09 d) cs))"
  by pat_completeness auto
termination
  by (relation "measure length") (auto simp: less_Suc_eq_le length_dropWhile_le)

text \<open>
  \<^verbatim>\<open>re.sub(r"-{2,}", "-", text)\<close>: every maximal run of two or more dashes is replaced
  by one dash.
\<close>

function sub_dashes :: "pystr \<Rightarrow> pystr" where
  "sub_dashes [] = []"
| "sub_dashes [c] = [c]"
| "sub_dashes (c # d # cs) =
     (if c = dash \<and> d = dash then dash # sub_dashes (dropWhile (\<lambda>x. x = dash) cs)
      else c # sub_dashes (d # cs))"
  by pat_completeness auto
termination
  by (relation "measure length") (auto simp: less_Suc_eq_le intro: le_SucI length_dropWhile_le)

section \<open>slugify\<close>

text \<open>
  \<^verbatim>\<open>
  def slugify(text: str) -> str:
      text = text.lower().strip()
      text = re.sub(r"[^a-z0-9]+", "-", text)
      text = re.sub(r"-{2,}", "-", text).strip("-")
      return text or "image"
  \<close>
\<close>

definition slugify :: "pystr \<Rightarrow> pystr" where
  "slugify text =
     (let text1 = strip isspace (lower text);
          text2 = sub_non_alnum text1;
          text3 = strip (\<lambda>c. c = dash) (sub_dashes text2)
      in if text3 = [] then str ''image'' else text3)"

section \<open>Configuration\<close>

text \<open>
  \<^verbatim>\<open>Settings\<close> is read from the environment (or \<^verbatim>\<open>.env\<close>): the API key is a required
  field, so constructing \<^verbatim>\<open>Settings()\<close> raises when it is absent. \<open>environ\<close> holds
  the two variables the class reads.
\<close>

datatype error = ValidationError

record environ =
  env_openai_api_key :: "pystr option"
  env_openai_base_url :: "pystr option"

record settings =
  openai_api_key :: pystr
  openai_base_url :: "pystr option"

definition Settings :: "environ \<Rightarrow> error + settings" where
  "Settings env =
     (case env_openai_api_key env of
        None \<Rightarrow> Inl ValidationError
      | Some k \<Rightarrow> Inr \<lparr>openai_api_key = k, openai_base_url = env_openai_base_url env\<rparr>)"

text \<open>
  \<open>args\<close> is the namespace \<^verbatim>\<open>argparse\<close> returns: \<^verbatim>\<open>--prompt\<close> has no default (so
  it is \<^verbatim>\<open>None\<close> when omitted), \<^verbatim>\<open>--count\<close> is an integer, the others are strings.
  \<^verbatim>\<open>AppConfig\<close> validates them: the only constraint is \<^verbatim>\<open>ge=1, le=50\<close> on
  \<^verbatim>\<open>count\<close>.
\<close>

record args =
  arg_prompt :: "pystr option"
  arg_count :: int
  arg_model :: pystr
  arg_size :: pystr
  arg_quality :: pystr
  arg_out_dir :: pystr

record app_config =
  prompt :: "pystr option"
  count :: int
  model :: pystr
  size_str :: pystr
  quality :: pystr
  out_dir :: "pystr option"

definition AppConfig :: "args \<Rightarrow> error + app_config" where
  "AppConfig a =
     (if 1 \<le> arg_count a \<and> arg_count a \<le> 50
      then Inr \<lparr>prompt = arg_prompt a, count = arg_count a, model = arg_model a,
                size_str = arg_size a, quality = arg_quality a,
                out_dir = (if arg_out_dir a \<noteq> [] then Some (arg_out_dir a) else None)\<rparr>
      else Inl ValidationError)"

section \<open>Prompt source\<close>

definition subjects :: "pystr list" where
  "subjects = map str
     [''a lobster astronaut'', ''a brutalist lighthouse'', ''a cozy reading nook'',
      ''a cyberpunk noodle shop'', ''a Vienna street at dusk'', ''a minimalist product photo'',
      ''a surreal underwater library'', ''a futuristic solarpunk city'',
      ''a retro vaporwave landscape'']"

definition styles :: "pystr list" where
  "styles = map str
     [''ultra-detailed studio photo'', ''35mm film still'', ''isometric illustration'',
      ''editorial photography'', ''soft watercolor'', ''architectural render'',
      ''high-contrast monochrome'', ''low-poly 3d render'', ''oil painting'']"

definition lighting :: "pystr list" where
  "lighting = map str
     [''golden hour'', ''overcast soft light'', ''neon lighting'', ''dramatic rim light'',
      ''candlelight'', ''foggy atmosphere'', ''bioluminescent glow'']"

text \<open>
  The random number generator is a sequence of raw draws and a position in it.
  \<^verbatim>\<open>random.choice(seq)\<close> takes the next draw and returns the element at that draw
  modulo the length: every element can be chosen, and nothing else. (On an empty
  sequence Python raises; the three vocabularies are non-empty literals.)
\<close>

type_synonym rand = "(nat \<Rightarrow> nat) \<times> nat"

definition choice :: "'a list \<Rightarrow> rand \<Rightarrow> 'a \<times> rand" where
  "choice seq g = (case g of (draw, k) \<Rightarrow> (seq ! (draw k mod length seq), (draw, Suc k)))"

text \<open>
  The loop of \<^verbatim>\<open>pick_prompts\<close>: each round appends one prompt; the f-string evaluates
  its three choices from left to right (style, subject, lighting).
\<close>

fun pick_loop :: "nat \<Rightarrow> rand \<Rightarrow> pystr list \<Rightarrow> pystr list" where
  "pick_loop 0 g prompts = prompts"
| "pick_loop (Suc n) g prompts =
     (case choice styles g of (st, g1) \<Rightarrow>
      case choice subjects g1 of (su, g2) \<Rightarrow>
      case choice lighting g2 of (li, g3) \<Rightarrow>
        pick_loop n g3 (prompts @ [st @ str '' of '' @ su @ str '', '' @ li]))"

definition pick_prompts :: "int \<Rightarrow> rand \<Rightarrow> pystr list" where
  "pick_prompts n g = pick_loop (nat n) g []"

text \<open>
  Line 256 of the script:
  \<^verbatim>\<open>prompts = [config.prompt] * config.count if config.prompt else pick_prompts(config.count)\<close>.
  The condition is the truth value of \<^verbatim>\<open>config.prompt\<close>: \<^verbatim>\<open>None\<close> and the empty
  string are both false.
\<close>

definition select_prompts :: "app_config \<Rightarrow> rand \<Rightarrow> pystr list" where
  "select_prompts config g =
     (case prompt config of
        Some p \<Rightarrow> if p \<noteq> [] then replicate (nat (count config)) p
                  else pick_prompts (count config) g
      | None \<Rightarrow> pick_prompts (count config) g)"

section \<open>File names\<close>

text \<open>\<^verbatim>\<open>str(n)\<close> for a natural number: its decimal digits.\<close>

fun digits :: "nat \<Rightarrow> pystr" where
  "digits n = (if n < 10 then [48 + n] else digits (n div 10) @ [48 + n mod 10])"

declare digits.simps [simp del]

text \<open>
  The format \<^verbatim>\<open>{idx:03d}\<close>: zero padding to a width of three that counts the sign.
\<close>

definition zfill :: "nat \<Rightarrow> pystr \<Rightarrow> pystr" where
  "zfill w s = replicate (w - length s) 48 @ s"

definition format_03d :: "int \<Rightarrow> pystr" where
  "format_03d n =
     (if n < 0 then dash # zfill 2 (digits (nat (- n))) else zfill 3 (digits (nat n)))"

text \<open>\<^verbatim>\<open>filename = f"{idx:03d}-{slugify(prompt)[:40]}.png"\<close>\<close>

definition filename :: "int \<Rightarrow> pystr \<Rightarrow> pystr" where
  "filename idx p = format_03d idx @ str ''-'' @ take 40 (slugify p) @ str ''.png''"

section \<open>The world outside the script\<close>

text \<open>
  What the run leaves behind, and what the properties below read: the image files of the
  output directory (name to content), the number of \<^verbatim>\<open>progress.advance\<close> calls, the
  lines printed on the console, the two artifacts written at the end
  (\<^verbatim>\<open>prompts.json\<close>, held as the list of records it serialises, and \<^verbatim>\<open>index.html\<close>,
  held as the list of records it renders), and the calls made to
  \<^verbatim>\<open>client.images.generate\<close>, each with the index of the request that made it and the
  keyword arguments it passed (a dictionary from key to value). File-system writes
  succeed; the spinner's description text (\<^verbatim>\<open>progress.update\<close>) is display only and
  is left out.
\<close>

datatype pyval = PyStr pystr | PyInt int

type_synonym params = "string \<rightharpoonup> pyval"

record item =
  item_prompt :: pystr
  item_file :: pystr

datatype message =
    ConfigurationError
  | SetApiKeyHint
  | InvalidArguments
  | OutputDirectory
  | OpenAIErrorFor int pystr
  | ErrorFor int pystr
  | NoImageData pystr
  | GalleryCreated

record state =
  files :: "pystr \<rightharpoonup> bytes"
  advanced :: nat
  console :: "message list"
  manifest :: "item list option"
  gallery :: "item list option"
  sent :: "(int \<times> params) list"

definition write_bytes :: "pystr \<Rightarrow> bytes \<Rightarrow> state \<Rightarrow> state" where
  "write_bytes name content s = s\<lparr>files := (files s)(name \<mapsto> content)\<rparr>"

definition advance :: "state \<Rightarrow> state" where
  "advance s = s\<lparr>advanced := Suc (advanced s)\<rparr>"

definition console_print :: "message \<Rightarrow> state \<Rightarrow> state" where
  "console_print m s = s\<lparr>console := console s @ [m]\<rparr>"

definition api_call :: "int \<Rightarrow> params \<Rightarrow> state \<Rightarrow> state" where
  "api_call idx ps s = s\<lparr>sent := sent s @ [(idx, ps)]\<rparr>"

text \<open>
  The remote side. \<^verbatim>\<open>client.images.generate(**params)\<close> either raises an
  \<^verbatim>\<open>OpenAIError\<close>, raises something else, or returns a response whose \<^verbatim>\<open>data\<close> field is
  \<^verbatim>\<open>None\<close> or a list of images, each with an optional \<^verbatim>\<open>b64_json\<close> and an optional
  \<^verbatim>\<open>url\<close>. \<^verbatim>\<open>http_client.get\<close> either raises or returns a status code and a body.
  Both replies may depend on which request of the batch is asking (its index) and
  on what it sends. \<^verbatim>\<open>base64.b64decode\<close> raises on malformed input (\<open>None\<close>).
\<close>

record image =
  b64_json :: "pystr option"
  url :: "pystr option"

datatype gen_reply =
    GenOpenAIError pystr
  | GenException pystr
  | GenResponse "image list option"

datatype get_reply =
    GetException pystr
  | GetResponse int bytes

record world =
  images_generate :: "int \<Rightarrow> params \<Rightarrow> gen_reply"
  http_get :: "int \<Rightarrow> pystr \<Rightarrow> get_reply"
  b64decode :: "pystr \<Rightarrow> bytes option"

section \<open>request\_image\<close>

datatype exn = OpenAIError pystr | Exception pystr

definition startswith :: "pystr \<Rightarrow> pystr \<Rightarrow> bool" where
  "startswith s p = (take (length p) s = p)"

text \<open>
  The dictionary \<^verbatim>\<open>params\<close> as it is when \<^verbatim>\<open>client.images.generate\<close> is called: five
  fixed keys, and \<^verbatim>\<open>response_format\<close> only behind the test on the model name.
\<close>

definition request_params :: "app_config \<Rightarrow> pystr \<Rightarrow> params" where
  "request_params config p =
     (let params = [''model'' \<mapsto> PyStr (model config), ''prompt'' \<mapsto> PyStr p,
                    ''size'' \<mapsto> PyStr (size_str config), ''quality'' \<mapsto> PyStr (quality config),
                    ''n'' \<mapsto> PyInt 1]
      in if startswith (model config) (str ''dall-e'')
         then params(''response_format'' \<mapsto> PyStr (str ''b64_json''))
         else params)"

text \<open>\<^verbatim>\<open>x if x else None\<close> for an optional string: the value when it is true.\<close>

fun truthy :: "pystr option \<Rightarrow> pystr option" where
  "truthy None = None"
| "truthy (Some s) = (if s = [] then None else Some s)"

text \<open>\<^verbatim>\<open>200 <= status_code <= 299\<close>, the test behind \<^verbatim>\<open>raise_for_status\<close>.\<close>

definition is_success :: "int \<Rightarrow> bool" where
  "is_success status = (200 \<le> status \<and> status \<le> 299)"

text \<open>
  The body of the \<^verbatim>\<open>try\<close> block of \<^verbatim>\<open>request_image\<close> (lines 120 to 157): it either
  raises (\<open>Inl\<close>) or returns (\<open>Inr\<close>), and gives the state it leaves. Indexing
  \<^verbatim>\<open>[0]\<close> into \<^verbatim>\<open>data\<close> raises a \<^verbatim>\<open>TypeError\<close> on \<^verbatim>\<open>None\<close> and an \<^verbatim>\<open>IndexError\<close> on
  the empty list (\<^verbatim>\<open>model_dump\<close> always has the key \<^verbatim>\<open>data\<close>, so the default of
  \<^verbatim>\<open>.get\<close> is never used). The branch without image data prints its warning and
  returns \<^verbatim>\<open>None\<close> at once, from inside the \<^verbatim>\<open>try\<close>.
\<close>

definition request_image_try ::
    "world \<Rightarrow> pystr \<Rightarrow> int \<Rightarrow> app_config \<Rightarrow> state \<Rightarrow> (exn + item option) \<times> state" where
  "request_image_try w p idx config s0 =
     (let params = request_params config p;
          s = api_call idx params s0
      in
      case images_generate w idx params of
        GenOpenAIError e \<Rightarrow> (Inl (OpenAIError e), s)
      | GenException e \<Rightarrow> (Inl (Exception e), s)
      | GenResponse None \<Rightarrow> (Inl (Exception (str ''TypeError'')), s)
      | GenResponse (Some []) \<Rightarrow> (Inl (Exception (str ''IndexError'')), s)
      | GenResponse (Some (data_item # _)) \<Rightarrow>
          (case truthy (b64_json data_item) of
             Some b64 \<Rightarrow>
               (case b64decode w b64 of
                  None \<Rightarrow> (Inl (Exception (str ''binascii.Error'')), s)
                | Some png \<Rightarrow>
                    (Inr (Some \<lparr>item_prompt = p, item_file = filename idx p\<rparr>),
                     advance (write_bytes (filename idx p) png s)))
           | None \<Rightarrow>
               (case truthy (url data_item) of
                  Some u \<Rightarrow>
                    (case http_get w idx u of
                       GetException e \<Rightarrow> (Inl (Exception e), s)
                     | GetResponse status content \<Rightarrow>
                         if is_success status
                         then (Inr (Some \<lparr>item_prompt = p, item_file = filename idx p\<rparr>),
                               advance (write_bytes (filename idx p) content s))
                         else (Inl (Exception (str ''HTTPStatusError'')), s))
                | None \<Rightarrow> (Inr None, console_print (NoImageData (take 20 p)) s))))"

text \<open>
  \<^verbatim>\<open>request_image\<close>: the \<^verbatim>\<open>try\<close> block with its two handlers. Each handler prints a
  line; after a handler the function advances the progress bar and returns
  \<^verbatim>\<open>None\<close> (lines 159 to 165).
\<close>

definition request_image ::
    "world \<Rightarrow> pystr \<Rightarrow> int \<Rightarrow> app_config \<Rightarrow> state \<Rightarrow> item option \<times> state" where
  "request_image w p idx config s =
     (case request_image_try w p idx config s of
        (Inr r, s') \<Rightarrow> (r, s')
      | (Inl (OpenAIError e), s') \<Rightarrow> (None, advance (console_print (OpenAIErrorFor idx e) s'))
      | (Inl (Exception e), s') \<Rightarrow> (None, advance (console_print (ErrorFor idx e) s')))"

section \<open>The batch\<close>

text \<open>
  \<^verbatim>\<open>asyncio.gather\<close> runs its children on one event loop. A child of this script
  touches the files, the console and the progress bar only in its last step, after
  its last \<^verbatim>\<open>await\<close>, so a run of the batch is fixed by the order in which the
  children complete. That order is the environment's choice: the schedule is a list
  of raw choices, and the loop completes, each time, the pending child at position
  \<open>choice mod number pending\<close> (the first one once the list is used up). Every
  completion order arises from some schedule. A child is run as a whole when it
  completes, so the calls to the API are recorded in the order of completion, not in
  the order they were issued in; what is read from the record is which calls were
  made, and how many.
\<close>

type_synonym 'r task = "state \<Rightarrow> 'r \<times> state"

function completion_order :: "nat list \<Rightarrow> 'a list \<Rightarrow> 'a list" where
  "completion_order sched [] = []"
| "completion_order sched (t # ts) =
     (let pending = t # ts;
          k = (case sched of [] \<Rightarrow> 0 | c # _ \<Rightarrow> c mod length pending)
      in pending ! k # completion_order (tl sched) (take k pending @ drop (Suc k) pending))"
  by pat_completeness auto
termination
  by (relation "measure (\<lambda>(sched, pending). length pending)") (auto split: list.splits)

text \<open>Running the children to completion in a given order; each leaves its result.\<close>

fun run_tasks :: "(nat \<times> 'r task) list \<Rightarrow> state \<Rightarrow> (nat \<times> 'r) list \<times> state" where
  "run_tasks [] s = ([], s)"
| "run_tasks ((i, t) # ts) s =
     (case t s of (r, s1) \<Rightarrow>
      case run_tasks ts s1 of (finished, s2) \<Rightarrow> ((i, r) # finished, s2))"

text \<open>
  \<^verbatim>\<open>gather\<close> returns when no child is pending, and hands back the results of the
  children in the order of the children, whatever the order they completed in.
\<close>

definition gather :: "'r task list \<Rightarrow> nat list \<Rightarrow> state \<Rightarrow> 'r list \<times> state" where
  "gather tasks sched s =
     (case run_tasks (completion_order sched (zip [0..<length tasks] tasks)) s of
        (finished, s') \<Rightarrow> (List.map_filter (map_of finished) [0..<length tasks], s'))"

text \<open>\<^verbatim>\<open>enumerate(xs, start=n)\<close>\<close>

fun enumerate_start :: "int \<Rightarrow> 'a list \<Rightarrow> (int \<times> 'a) list" where
  "enumerate_start n [] = []"
| "enumerate_start n (x # xs) = (n, x) # enumerate_start (n + 1) xs"

text \<open>
  Lines 266 to 271: one \<^verbatim>\<open>request_image\<close> per prompt, numbered from 1, gathered, and
  the results that are not \<^verbatim>\<open>None\<close> kept.
\<close>

definition request_tasks :: "world \<Rightarrow> app_config \<Rightarrow> pystr list \<Rightarrow> item option task list" where
  "request_tasks w config prompts =
     map (\<lambda>(idx, p). request_image w p idx config) (enumerate_start 1 prompts)"

definition generate_images ::
    "world \<Rightarrow> app_config \<Rightarrow> pystr list \<Rightarrow> nat list \<Rightarrow> state \<Rightarrow> item list \<times> state" where
  "generate_images w config prompts sched s =
     (case gather (request_tasks w config prompts) sched s of
        (results, s') \<Rightarrow> ([r. Some r \<leftarrow> results], s'))"

section \<open>async\_main\<close>

definition write_manifest :: "item list \<Rightarrow> state \<Rightarrow> state" where
  "write_manifest items s = s\<lparr>manifest := Some items\<rparr>"

definition write_gallery :: "item list \<Rightarrow> state \<Rightarrow> state" where
  "write_gallery items s = s\<lparr>gallery := Some items\<rparr>"

text \<open>
  \<^verbatim>\<open>async_main\<close> returns the exit code of the process (\<^verbatim>\<open>sys.exit(main())\<close>). Its
  inputs are the environment, the arguments as \<^verbatim>\<open>parse_args\<close> returned them, the
  remote side, the random generator, the schedule of the event loop and the state it
  starts in. Creating the client and the output directory (steps 4 and 5 of the
  source) is taken to succeed; the directory is the one whose files the state holds.
\<close>

definition async_main ::
    "environ \<Rightarrow> args \<Rightarrow> world \<Rightarrow> rand \<Rightarrow> nat list \<Rightarrow> state \<Rightarrow> int \<times> state" where
  "async_main env a w g sched s =
     (case Settings env of
        Inl e \<Rightarrow> (1, console_print SetApiKeyHint (console_print ConfigurationError s))
      | Inr settings \<Rightarrow>
          (case AppConfig a of
             Inl e \<Rightarrow> (2, console_print InvalidArguments s)
           | Inr config \<Rightarrow>
               (let s1 = console_print OutputDirectory s;
                    prompts = select_prompts config g
                in case generate_images w config prompts sched s1 of
                     (items, s2) \<Rightarrow>
                       (0, console_print GalleryCreated
                             (write_gallery items (write_manifest items s2))))))"

section \<open>Notions used in the statements and proofs\<close>

text \<open>
  The characters a slug is made of, and the shape the first substitution leaves: only
  such characters, and no two dashes in a row.
\<close>

definition slugc :: "codepoint \<Rightarrow> bool" where
  "slugc c = (az09 c \<or> c = dash)"

fun nf :: "pystr \<Rightarrow> bool" where
  "nf [] = True"
| "nf (c # cs) = (slugc c \<and> (c = dash \<longrightarrow> cs = [] \<or> hd cs \<noteq> dash) \<and> nf cs)"

definition good :: "pystr \<Rightarrow> bool" where
  "good s = (nf s \<and> s \<noteq> [] \<and> hd s \<noteq> dash \<and> last s \<noteq> dash)"

text \<open>
  The alphanumeric code points that \<open>slugify\<close> can tell from the others: the ASCII
  letters and digits, and the two letters U+0130 and U+212A, whose lower case
  contains an ASCII letter. (\<^verbatim>\<open>str.isalnum\<close> accepts all of these; every other code
  point it accepts lower-cases outside \<^verbatim>\<open>[a-z0-9]\<close>.)
\<close>

definition alnum :: "codepoint \<Rightarrow> bool" where
  "alnum c = ((65 \<le> c \<and> c \<le> 90) \<or> (97 \<le> c \<and> c \<le> 122) \<or> (48 \<le> c \<and> c \<le> 57)
     \<or> c = 304 \<or> c = 8490)"

text \<open>Reading a file name back: the number written before its first dash.\<close>

definition dec_value :: "pystr \<Rightarrow> nat" where
  "dec_value s = foldl (\<lambda>a c. 10 * a + (c - 48)) 0 s"

definition index_of_filename :: "pystr \<Rightarrow> nat" where
  "index_of_filename f = dec_value (takeWhile (\<lambda>c. c \<noteq> dash) f)"

text \<open>
  A state with nothing in it, the result of one request (it does not depend on the
  state the request runs in), and the files a result stands for.
\<close>

definition init_state :: state where
  "init_state = \<lparr>files = Map.empty, advanced = 0, console = [], manifest = None,
      gallery = None, sent = []\<rparr>"



text \<open>
  A prompt assembled from the vocabularies: \<^verbatim>\<open>"<style> of <subject>, <lighting>"\<close>.
\<close>

definition assembled :: "pystr \<Rightarrow> bool" where
  "assembled q = (\<exists>st\<in>set styles. \<exists>su\<in>set subjects. \<exists>li\<in>set lighting.
                    q = st @ str '' of '' @ su @ str '', '' @ li)"

text \<open>Example inputs: a generator whose draws are all 0, and a configuration.\<close>

definition zero_draws :: rand where
  "zero_draws = (\<lambda>k. 0, 0)"

definition example_config :: app_config where
  "example_config = \<lparr>prompt = Some (str ''a red bicycle''), count = 3, model = str ''gpt-image-1-mini'',
      size_str = str ''1024x1024'', quality = str ''high'', out_dir = None\<rparr>"




text \<open>
  The response of the branch without image data: the first image of \<^verbatim>\<open>data\<close> has
  neither a true \<^verbatim>\<open>b64_json\<close> nor a true \<^verbatim>\<open>url\<close>.
\<close>

definition no_image_data :: "world \<Rightarrow> app_config \<Rightarrow> int \<Rightarrow> pystr \<Rightarrow> bool" where
  "no_image_data w config idx p =
     (case images_generate w idx (request_params config p) of
        GenResponse (Some (data_item # _)) \<Rightarrow>
          truthy (b64_json data_item) = None \<and> truthy (url data_item) = None
      | _ \<Rightarrow> False)"



definition inline_reply :: gen_reply where
  "inline_reply = GenResponse (Some [\<lparr>b64_json = Some (str ''iVBORw0KGgo=''), url = None\<rparr>])"

definition reject_second :: "int \<Rightarrow> params \<Rightarrow> gen_reply" where
  "reject_second idx ps = (if idx = 2 then GenOpenAIError (str ''rejected'') else inline_reply)"

definition reject_all :: "int \<Rightarrow> params \<Rightarrow> gen_reply" where
  "reject_all idx ps = GenOpenAIError (str ''rejected'')"

definition reply_without_data :: "int \<Rightarrow> params \<Rightarrow> gen_reply" where
  "reply_without_data idx ps = GenResponse (Some [\<lparr>b64_json = None, url = None\<rparr>])"

definition unreachable :: "int \<Rightarrow> pystr \<Rightarrow> get_reply" where
  "unreachable idx u = GetException (str ''unreachable'')"

definition decode_png :: "pystr \<Rightarrow> bytes option" where
  "decode_png b64 = Some [137, 80, 78, 71]"

definition example_world :: world where
  "example_world = \<lparr>images_generate = reject_second, http_get = unreachable, b64decode = decode_png\<rparr>"

definition failing_world :: world where
  "failing_world = \<lparr>images_generate = reject_all, http_get = unreachable, b64decode = decode_png\<rparr>"

definition no_data_world :: world where
  "no_data_world = \<lparr>images_generate = reply_without_data, http_get = unreachable, b64decode = decode_png\<rparr>"

definition red_bicycles :: "pystr list" where
  "red_bicycles = [str ''a red bicycle'', str ''a red bicycle'', str ''a red bicycle'']"


text \<open>The call a request makes: its index and the keyword arguments.\<close>

definition call_of :: "app_config \<Rightarrow> int \<times> pystr \<Rightarrow> int \<times> params" where
  "call_of config = (\<lambda>(idx, p). (idx, request_params config p))"

section \<open>Properties of slugify\<close>

lemma az09_not_dash: "az09 c \<Longrightarrow> c \<noteq> dash"
  by (auto simp: az09_def)

lemma hd_sub_non_alnum: "t = [] \<or> az09 (hd t) \<Longrightarrow> sub_non_alnum t = [] \<or> hd (sub_non_alnum t) \<noteq> dash"
  by (cases t) (auto simp: az09_not_dash)

lemma dropWhile_hd: "dropWhile P xs = [] \<or> \<not> P (hd (dropWhile P xs))"
  by (metis hd_dropWhile)

lemma nf_sub_non_alnum: "nf (sub_non_alnum t)"
proof (induction t rule: sub_non_alnum.induct)
  case 1
  show ?case by simp
next
  case (2 c cs)
  show ?case
  proof (cases "az09 c")
    case True
    with 2 show ?thesis by (simp add: slugc_def az09_not_dash)
  next
    case False
    have "sub_non_alnum (dropWhile (\<lambda>d. \<not> az09 d) cs) = []
          \<or> hd (sub_non_alnum (dropWhile (\<lambda>d. \<not> az09 d) cs)) \<noteq> dash"
      using dropWhile_hd [of "\<lambda>d. \<not> az09 d" cs] by (intro hd_sub_non_alnum) auto
    with False 2 show ?thesis by (auto simp: slugc_def)
  qed
qed

lemma nf_sub_dashes: "nf s \<Longrightarrow> sub_dashes s = s"
  by (induction s rule: sub_dashes.induct) auto

lemma nf_append: "nf (xs @ ys) \<Longrightarrow> nf xs \<and> nf ys"
  by (induction xs) (auto simp: hd_append split: if_splits)

lemma nf_dropWhile: "nf s \<Longrightarrow> nf (dropWhile P s)"
  by (metis nf_append takeWhile_dropWhile_id)

lemma rstrip_prefix: "rev (dropWhile P (rev s)) @ rev (takeWhile P (rev s)) = s"
  by (metis rev_append rev_rev_ident takeWhile_dropWhile_id)

lemma nf_strip: "nf s \<Longrightarrow> nf (strip P s)"
  unfolding strip_def by (metis nf_dropWhile nf_append rstrip_prefix)

lemma nf_set: "nf s \<Longrightarrow> c \<in> set s \<Longrightarrow> slugc c"
  by (induction s) auto

lemma strip_hd: "strip P s \<noteq> [] \<Longrightarrow> \<not> P (hd (strip P s))"
proof -
  assume ne: "strip P s \<noteq> []"
  let ?d = "dropWhile P s"
  have "strip P s @ rev (takeWhile P (rev ?d)) = ?d"
    unfolding strip_def by (rule rstrip_prefix)
  with ne have "hd (strip P s) = hd ?d" and "?d \<noteq> []"
    by (metis hd_append2, metis append_is_Nil_conv)
  then show ?thesis by (metis hd_dropWhile)
qed

lemma strip_last: "strip P s \<noteq> [] \<Longrightarrow> \<not> P (last (strip P s))"
  unfolding strip_def by (metis hd_dropWhile last_rev rev_is_Nil_conv)

lemma strip_id: "s = [] \<or> (\<not> P (hd s) \<and> \<not> P (last s)) \<Longrightarrow> strip P s = s"
proof (cases s)
  case Nil
  then show ?thesis by (simp add: strip_def)
next
  case (Cons a as)
  assume "s = [] \<or> (\<not> P (hd s) \<and> \<not> P (last s))"
  with Cons have h: "\<not> P a" and l: "\<not> P (last s)" by auto
  from h Cons have 1: "dropWhile P s = s" by simp
  have "rev s \<noteq> []" using Cons by simp
  then obtain b bs where rs: "rev s = b # bs" by (cases "rev s") auto
  then have "b = last s" by (metis last_rev list.sel(1) rev_rev_ident) 
  with l have "dropWhile P (b # bs) = b # bs" by simp
  then have 2: "dropWhile P (rev s) = rev s" by (simp only: rs)
  show ?thesis by (simp add: strip_def 1 2)
qed

lemma slugc_lower_cp: "slugc c \<Longrightarrow> lower_cp c = [c]"
  by (auto simp: slugc_def az09_def lower_cp_def)

lemma lower_id: "\<forall>c\<in>set s. slugc c \<Longrightarrow> lower s = s"
  by (induction s) (auto simp: lower_def slugc_lower_cp)

lemma slugc_not_space: "slugc c \<Longrightarrow> \<not> isspace c"
  by (auto simp: slugc_def az09_def isspace_def)

lemma nf_sub_non_alnum_id: "nf s \<Longrightarrow> sub_non_alnum s = s"
proof (induction s)
  case Nil
  show ?case by simp
next
  case (Cons c cs)
  show ?case
  proof (cases "az09 c")
    case True
    with Cons show ?thesis by simp
  next
    case False
    with Cons.prems have c: "c = dash" and hd: "cs = [] \<or> hd cs \<noteq> dash" and nf: "nf cs"
      by (auto simp: slugc_def)
    have "dropWhile (\<lambda>d. \<not> az09 d) cs = cs"
    proof (cases cs)
      case Nil
      then show ?thesis by simp
    next
      case (Cons d ds)
      with hd nf have "az09 d" by (auto simp: slugc_def)
      with Cons show ?thesis by simp
    qed
    with False c Cons.IH nf show ?thesis by simp
  qed
qed

lemma good_fix: assumes "good s" shows "slugify s = s"
proof -
  from assms have nf: "nf s" and ne: "s \<noteq> []" and h: "hd s \<noteq> dash" and l: "last s \<noteq> dash"
    by (auto simp: good_def)
  have all: "\<forall>c\<in>set s. slugc c" using nf nf_set by blast
  have 1: "lower s = s" using all by (rule lower_id)
  have 2: "strip isspace s = s"
    using ne all by (intro strip_id) (auto simp: slugc_not_space)
  have 3: "sub_non_alnum s = s" using nf by (rule nf_sub_non_alnum_id)
  have 4: "sub_dashes s = s" using nf by (rule nf_sub_dashes)
  have 5: "strip (\<lambda>c. c = dash) s = s" using h l by (intro strip_id) auto
  show ?thesis using ne by (simp add: slugify_def 1 2 3 4 5)
qed

lemma good_image: "good (str ''image'')"
  by (simp add: good_def str_def slugc_def az09_def)

lemma good_slugify: "good (slugify x)"
proof -
  let ?t = "strip (\<lambda>c. c = dash) (sub_dashes (sub_non_alnum (strip isspace (lower x))))"
  have nf: "nf ?t"
    by (simp add: nf_strip nf_sub_dashes nf_sub_non_alnum)
  show ?thesis
  proof (cases "?t = []")
    case True
    then show ?thesis by (simp add: slugify_def good_image)
  next
    case False
    then have "hd ?t \<noteq> dash" "last ?t \<noteq> dash"
      using strip_hd [of "\<lambda>c. c = dash"] strip_last [of "\<lambda>c. c = dash"] by blast+
    with nf False show ?thesis by (simp add: slugify_def good_def)
  qed
qed

lemma lower_cp_no_alnum: "\<not> alnum c \<Longrightarrow> d \<in> set (lower_cp c) \<Longrightarrow> \<not> az09 d"
  unfolding lower_cp_def alnum_def az09_def by (simp split: if_splits)

lemma lower_no_alnum: "\<forall>c\<in>set s. \<not> alnum c \<Longrightarrow> \<forall>c\<in>set (lower s). \<not> az09 c"
  unfolding lower_def using lower_cp_no_alnum by auto

lemma sub_non_alnum_none: "\<forall>c\<in>set t. \<not> az09 c \<Longrightarrow> sub_non_alnum t = [] \<or> sub_non_alnum t = [dash]"
proof (cases t)
  case Nil
  then show ?thesis by simp
next
  case (Cons c cs)
  assume a: "\<forall>c\<in>set t. \<not> az09 c"
  with Cons have "\<forall>d\<in>set cs. \<not> az09 d" and c: "\<not> az09 c" by simp_all
  then have dw: "dropWhile (\<lambda>d. \<not> az09 d) cs = []" by simp
  show ?thesis unfolding Cons using c by (simp add: dw)
qed

lemma set_strip: "set (strip P s) \<subseteq> set s"
  unfolding strip_def by (metis set_dropWhileD set_rev subsetI)

lemma slugify_no_alnum: assumes "\<forall>c\<in>set x. \<not> alnum c" shows "slugify x = str ''image''"
proof -
  have "\<forall>c\<in>set (strip isspace (lower x)). \<not> az09 c"
    using lower_no_alnum [OF assms] set_strip by blast
  then have "sub_non_alnum (strip isspace (lower x)) = [] \<or> sub_non_alnum (strip isspace (lower x)) = [dash]"
    by (rule sub_non_alnum_none)
  then show ?thesis
    by (auto simp: slugify_def strip_def)
qed

section \<open>Properties of file names\<close>

lemma dec_value_snoc: "dec_value (s @ [c]) = 10 * dec_value s + (c - 48)"
  by (simp add: dec_value_def)

lemma dec_value_digits: "dec_value (digits n) = n"
proof (induction n rule: digits.induct)
  case (1 n)
  show ?case
  proof (cases "n < 10")
    case True
    then show ?thesis by (simp add: digits.simps [of n] dec_value_def)
  next
    case False
    with 1 show ?thesis by (simp add: digits.simps [of n] dec_value_snoc)
  qed
qed

lemma digits_range: "c \<in> set (digits n) \<Longrightarrow> 48 \<le> c \<and> c \<le> 57"
proof (induction n rule: digits.induct)
  case (1 n)
  show ?case
  proof (cases "n < 10")
    case True
    with 1(2) show ?thesis by (simp add: digits.simps [of n])
  next
    case False
    with 1 show ?thesis by (auto simp: digits.simps [of n])
  qed
qed

lemma dec_value_zeros: "foldl (\<lambda>a c. 10 * a + (c - 48)) 0 (replicate k 48) = (0::nat)"
  by (induction k) simp_all

lemma dec_value_zfill: "dec_value (zfill w s) = dec_value s"
  by (simp add: zfill_def dec_value_def dec_value_zeros)

lemma zfill_range: "c \<in> set (zfill w (digits n)) \<Longrightarrow> c \<noteq> dash"
  using digits_range [of c n] by (auto simp: zfill_def)

lemma index_of_filename: "0 \<le> idx \<Longrightarrow> index_of_filename (filename idx p) = nat idx"
proof -
  assume "0 \<le> idx"
  then have f: "filename idx p = zfill 3 (digits (nat idx)) @ dash # (take 40 (slugify p) @ str ''.png'')"
    by (simp add: filename_def format_03d_def str_def)
  have "takeWhile (\<lambda>c. c \<noteq> dash) (filename idx p) = zfill 3 (digits (nat idx))"
    unfolding f using zfill_range by (subst takeWhile_append2) auto
  then show ?thesis
    by (simp add: index_of_filename_def dec_value_zfill dec_value_digits)
qed

lemma filename_inj: "0 \<le> i \<Longrightarrow> 0 \<le> j \<Longrightarrow> filename i p = filename j q \<Longrightarrow> i = j"
  by (metis index_of_filename nat_eq_iff2)

lemma enumerate_start_eq:
  "enumerate_start n xs = map (\<lambda>i. (n + int i, xs ! i)) [0..<length xs]"
proof (induction xs arbitrary: n)
  case Nil
  show ?case by simp
next
  case (Cons x xs)
  have "map (\<lambda>i. (n + int i, (x # xs) ! i)) [0..<length (x # xs)]
        = (n, x) # map (\<lambda>i. (n + int i, (x # xs) ! i)) (map Suc [0..<length xs])"
    by (simp add: upt_conv_Cons map_Suc_upt del: upt_Suc)
  also have "\<dots> = (n, x) # map (\<lambda>i. (n + 1 + int i, xs ! i)) [0..<length xs]"
    by (simp add: ac_simps)
  finally show ?case by (simp add: Cons.IH)
qed

lemma length_enumerate_start: "length (enumerate_start n xs) = length xs"
  by (simp add: enumerate_start_eq)

lemma distinct_filenames: "distinct (map (\<lambda>(idx, p). filename idx p) (enumerate_start 1 prompts))"
proof -
  have "inj_on (\<lambda>i. filename (1 + int i) (prompts ! i)) (set [0..<length prompts])"
  proof (rule inj_onI)
    fix x y
    assume "filename (1 + int x) (prompts ! x) = filename (1 + int y) (prompts ! y)"
    then have "1 + int x = 1 + int y" by (rule filename_inj [rotated 2]) simp_all
    then show "x = y" by simp
  qed
  then have "distinct (map (\<lambda>i. filename (1 + int i) (prompts ! i)) [0..<length prompts])"
    by (simp add: distinct_map)
  then show ?thesis by (simp add: enumerate_start_eq comp_def)
qed

lemma digits_small: "n < 10 \<Longrightarrow> digits n = [48 + n]"
  by (simp add: digits.simps [of n])

lemma digits_large: "10 \<le> n \<Longrightarrow> digits n = digits (n div 10) @ [48 + n mod 10]"
  by (simp add: digits.simps [of n])

lemma zfill_digits_lt_1000:
  assumes "n < 1000"
  shows "zfill 3 (digits n) = [48 + n div 100, 48 + n div 10 mod 10, 48 + n mod 10]"
proof -
  have three: "(3::nat) = Suc (Suc (Suc 0))" by simp
  show ?thesis
  proof (cases "n < 10")
    case True
    then have "n < 100" by simp
    then have a: "n div 100 = 0" by (rule div_less)
    from True have b: "n div 10 = 0" "n mod 10 = n" by simp_all
    have "zfill 3 (digits n) = [48, 48, 48 + n]"
      by (simp add: digits_small True zfill_def three)
    then show ?thesis by (simp add: a b)
  next
    case False
    then have d: "digits n = digits (n div 10) @ [48 + n mod 10]"
      by (simp add: digits_large)
    show ?thesis
    proof (cases "n < 100")
      case True
      then have a: "n div 10 < 10" by simp
      from True have b: "n div 100 = 0" by (rule div_less)
      have "zfill 3 (digits n) = [48, 48 + n div 10, 48 + n mod 10]"
        by (simp add: d digits_small a zfill_def three)
      then show ?thesis using a by (simp add: b)
    next
      case False
      have e: "n div 10 div 10 = n div 100" by (simp add: div_mult2_eq [symmetric])
      from False have "10 \<le> n div 10" by simp
      then have "digits (n div 10) = digits (n div 100) @ [48 + n div 10 mod 10]"
        by (simp add: digits_large e)
      moreover from assms have "n div 100 < 10" by simp
      ultimately have "digits n = [48 + n div 100, 48 + n div 10 mod 10, 48 + n mod 10]"
        by (simp add: d digits_small)
      then show ?thesis by (simp add: zfill_def)
    qed
  qed
qed

section \<open>Properties of the batch\<close>




lemma request_image_artifacts:
  "manifest (snd (request_image w p idx config s)) = manifest s \<and>
   gallery (snd (request_image w p idx config s)) = gallery s"
  by (simp add: request_image_def request_image_try_def Let_def
      advance_def api_call_def write_bytes_def console_print_def
      split: gen_reply.split option.split list.split get_reply.split)

lemma completion_order_step:
  "completion_order sched (t # ts) =
     (t # ts) ! (case sched of [] \<Rightarrow> 0 | c # _ \<Rightarrow> c mod length (t # ts))
     # completion_order (tl sched)
         (take (case sched of [] \<Rightarrow> 0 | c # _ \<Rightarrow> c mod length (t # ts)) (t # ts)
          @ drop (Suc (case sched of [] \<Rightarrow> 0 | c # _ \<Rightarrow> c mod length (t # ts))) (t # ts))"
  by (simp only: completion_order.simps Let_def)

lemma set_completion_order: "set (completion_order sched ps) = set ps"
proof (induction sched ps rule: completion_order.induct)
  case (1 sched)
  show ?case by simp
next
  case (2 sched t ts)
  let ?p = "t # ts"
  let ?k = "case sched of [] \<Rightarrow> 0 | c # _ \<Rightarrow> c mod length ?p"
  have k: "?k < length ?p"
    by (simp split: list.split)
  have ih: "set (completion_order (tl sched) (take ?k ?p @ drop (Suc ?k) ?p))
            = set (take ?k ?p @ drop (Suc ?k) ?p)"
    by (rule 2 [OF refl refl])
  have "set ?p = set (take ?k ?p @ ?p ! ?k # drop (Suc ?k) ?p)"
    using id_take_nth_drop [OF k] by simp
  also have "\<dots> = insert (?p ! ?k) (set (take ?k ?p @ drop (Suc ?k) ?p))"
    by (simp only: set_append list.set) blast
  finally show ?case
    by (simp only: completion_order_step [of sched t ts] list.set ih)
qed


lemma run_tasks_snd:
  "snd (run_tasks ((i, t) # ts) s) = snd (run_tasks ts (snd (t s)))"
  by (simp split: prod.split)



lemma run_tasks_preserves:
  assumes "\<And>i t s. (i, t) \<in> set ts \<Longrightarrow> f (snd (t s)) = f s"
  shows "f (snd (run_tasks ts s)) = f s"
  using assms
proof (induction ts arbitrary: s)
  case Nil
  show ?case by simp
next
  case (Cons a ts)
  obtain i t where a: "a = (i, t)" by (cases a)
  have 1: "f (snd (t s)) = f s" using Cons.prems [of i t s] a by simp
  have 2: "f (snd (run_tasks ts (snd (t s)))) = f (snd (t s))"
  proof (rule Cons.IH)
    fix j u s'
    assume "(j, u) \<in> set ts"
    then show "f (snd (u s')) = f s'" using Cons.prems [of j u s'] by simp
  qed
  have "snd (run_tasks (a # ts) s) = snd (run_tasks ts (snd (t s)))"
    unfolding a by (rule run_tasks_snd)
  then show ?case using 1 2 by simp
qed




lemma gather_state:
  "snd (gather tasks sched s) = snd (run_tasks (completion_order sched (zip [0..<length tasks] tasks)) s)"
  by (simp add: gather_def split: prod.split)


lemma gather_preserves:
  assumes "\<And>t s. t \<in> set tasks \<Longrightarrow> f (snd (t s)) = f s"
  shows "f (snd (gather tasks sched s)) = f s"
proof -
  let ?ps = "zip [0..<length tasks] tasks"
  let ?ord = "completion_order sched ?ps"
  have set_ord: "set ?ord = set ?ps" by (rule set_completion_order)
  have "f (snd (run_tasks ?ord s)) = f s"
  proof (rule run_tasks_preserves)
    fix i t s
    assume "(i, t) \<in> set ?ord"
    then have "t \<in> set tasks" using set_ord by (auto dest: set_zip_rightD)
    then show "f (snd (t s)) = f s" by (rule assms)
  qed
  then show ?thesis by (simp add: gather_state)
qed

section \<open>Properties of the prompt source\<close>

lemma vocabularies_nonempty: "styles \<noteq> [] \<and> subjects \<noteq> [] \<and> lighting \<noteq> []"
  by (simp add: styles_def subjects_def lighting_def)

lemma choice_in_set: "seq \<noteq> [] \<Longrightarrow> fst (choice seq g) \<in> set seq"
  by (cases g) (simp add: choice_def)

lemma pick_loop_step:
  "pick_loop (Suc n) g acc =
     pick_loop n (snd (choice lighting (snd (choice subjects (snd (choice styles g))))))
       (acc @ [fst (choice styles g) @ str '' of '' @ fst (choice subjects (snd (choice styles g)))
               @ str '', '' @ fst (choice lighting (snd (choice subjects (snd (choice styles g)))))])"
  by (simp split: prod.split)

lemma assembled_choices:
  "assembled (fst (choice styles g) @ str '' of '' @ fst (choice subjects g1) @ str '', '' @ fst (choice lighting g2))"
  unfolding assembled_def using vocabularies_nonempty choice_in_set by blast

lemma pick_loop_length: "length (pick_loop n g acc) = length acc + n"
proof (induction n arbitrary: g acc)
  case 0
  show ?case by simp
next
  case (Suc n)
  show ?case unfolding pick_loop_step by (simp add: Suc.IH)
qed

lemma pick_loop_set: "q \<in> set (pick_loop n g acc) \<Longrightarrow> q \<in> set acc \<or> assembled q"
proof (induction n arbitrary: g acc)
  case 0
  then show ?case by simp
next
  case (Suc n)
  from Suc.prems [unfolded pick_loop_step] Suc.IH show ?case
    using assembled_choices by fastforce
qed

lemma assembled_nonempty: "assembled q \<Longrightarrow> q \<noteq> []"
  by (auto simp: assembled_def str_def)

lemma pick_prompts_length: "length (pick_prompts n g) = nat n"
  by (simp add: pick_prompts_def pick_loop_length)

lemma pick_prompts_assembled: "q \<in> set (pick_prompts n g) \<Longrightarrow> assembled q"
  using pick_loop_set [of q "nat n" g "[]"] by (simp add: pick_prompts_def)

section \<open>Properties of a batch of requests\<close>

lemma request_tasks_member:
  "t \<in> set (request_tasks w config prompts) \<Longrightarrow> \<exists>idx p. t = request_image w p idx config"
  by (auto simp: request_tasks_def)



lemma generate_images_state:
  "snd (generate_images w config prompts sched s) = snd (gather (request_tasks w config prompts) sched s)"
  by (simp add: generate_images_def split: prod.split)






lemma generate_images_artifacts:
  "manifest (snd (generate_images w config prompts sched s)) = manifest s \<and>
   gallery (snd (generate_images w config prompts sched s)) = gallery s"
proof -
  have "manifest (snd (gather (request_tasks w config prompts) sched s)) = manifest s"
  proof (rule gather_preserves)
    fix t s'
    assume "t \<in> set (request_tasks w config prompts)"
    then obtain idx p where "t = request_image w p idx config"
      using request_tasks_member by blast
    then show "manifest (snd (t s')) = manifest s'" by (simp add: request_image_artifacts)
  qed
  moreover have "gallery (snd (gather (request_tasks w config prompts) sched s)) = gallery s"
  proof (rule gather_preserves)
    fix t s'
    assume "t \<in> set (request_tasks w config prompts)"
    then obtain idx p where "t = request_image w p idx config"
      using request_tasks_member by blast
    then show "gallery (snd (t s')) = gallery s'" by (simp add: request_image_artifacts)
  qed
  ultimately show ?thesis by (simp add: generate_images_state)
qed



section \<open>Properties of a request and of the whole run\<close>









lemma request_image_cases [case_names failed no_data written]:
  obtains
    (failed) msg where "\<not> no_image_data w config idx p"
      and "\<And>s. request_image w p idx config s =
             (None, advance (console_print msg (api_call idx (request_params config p) s)))"
  | (no_data) "no_image_data w config idx p"
      and "\<And>s. request_image w p idx config s =
             (None, console_print (NoImageData (take 20 p)) (api_call idx (request_params config p) s))"
  | (written) content where "\<not> no_image_data w config idx p"
      and "\<And>s. request_image w p idx config s =
             (Some \<lparr>item_prompt = p, item_file = filename idx p\<rparr>,
              advance (write_bytes (filename idx p) content
                (api_call idx (request_params config p) s)))"
proof (cases "images_generate w idx (request_params config p)")
  case (GenOpenAIError e)
  then show thesis
    by (intro failed [of "OpenAIErrorFor idx e"])
       (simp_all add: request_image_def request_image_try_def Let_def no_image_data_def)
next
  case (GenException e)
  then show thesis
    by (intro failed [of "ErrorFor idx e"])
       (simp_all add: request_image_def request_image_try_def Let_def no_image_data_def)
next
  case (GenResponse data)
  show thesis
  proof (cases data)
    case None
    with GenResponse show thesis
      by (intro failed [of "ErrorFor idx (str ''TypeError'')"])
         (simp_all add: request_image_def request_image_try_def Let_def no_image_data_def)
  next
    case (Some images)
    show thesis
    proof (cases images)
      case Nil
      with GenResponse Some show thesis
        by (intro failed [of "ErrorFor idx (str ''IndexError'')"])
           (simp_all add: request_image_def request_image_try_def Let_def no_image_data_def)
    next
      case (Cons data_item rest)
      note reply = GenResponse Some Cons
      show thesis
      proof (cases "truthy (b64_json data_item)")
        case (Some b64)
        note b = Some
        show thesis
        proof (cases "b64decode w b64")
          case None
          with reply b show thesis
            by (intro failed [of "ErrorFor idx (str ''binascii.Error'')"])
               (simp_all add: request_image_def request_image_try_def Let_def no_image_data_def)
        next
          case (Some png)
          with reply b show thesis
            by (intro written [of png])
               (simp_all add: request_image_def request_image_try_def Let_def no_image_data_def)
        qed
      next
        case None
        note b = None
        show thesis
        proof (cases "truthy (url data_item)")
          case None
          with reply b show thesis
            by (intro no_data)
               (simp_all add: request_image_def request_image_try_def Let_def no_image_data_def)
        next
          case (Some u)
          note u = Some
          show thesis
          proof (cases "http_get w idx u")
            case (GetException e)
            with reply b u show thesis
              by (intro failed [of "ErrorFor idx e"])
                 (simp_all add: request_image_def request_image_try_def Let_def no_image_data_def)
          next
            case (GetResponse status content)
            show thesis
            proof (cases "is_success status")
              case True
              with reply b u GetResponse show thesis
                by (intro written [of content])
                   (simp_all add: request_image_def request_image_try_def Let_def no_image_data_def)
            next
              case False
              with reply b u GetResponse show thesis
                by (intro failed [of "ErrorFor idx (str ''HTTPStatusError'')"])
                   (simp_all add: request_image_def request_image_try_def Let_def no_image_data_def)
            qed
          qed
        qed
      qed
    qed
  qed
qed







lemma request_image_advanced:
  "advanced (snd (request_image w p idx config s))
   = (if no_image_data w config idx p then advanced s else Suc (advanced s))"
  by (rule request_image_cases [where w = w and config = config and idx = idx and p = p])
     (simp_all add: advance_def api_call_def write_bytes_def console_print_def)

section \<open>Order and files of a batch\<close>








section \<open>Example runs and remaining lemmas\<close>








lemma example_lengths: "length red_bicycles = 3" "nat (count example_config) = 3"
  by (simp_all add: red_bicycles_def example_config_def)

lemma request_params_response_format:
  "request_params config p ''response_format'' =
     (if startswith (model config) (str ''dall-e'') then Some (PyStr (str ''b64_json'')) else None)"
  by (simp add: request_params_def)

lemma request_params_dom:
  "dom (request_params config p) - {''response_format''}
   = {''model'', ''prompt'', ''size'', ''quality'', ''n''}"
  by (auto simp: request_params_def Let_def split: if_splits)

lemma startswith_iff: "startswith s p = (\<exists>rest. s = p @ rest)"
proof
  assume "startswith s p"
  then have "s = p @ drop (length p) s"
    unfolding startswith_def by (metis append_take_drop_id)
  then show "\<exists>rest. s = p @ rest" ..
next
  assume "\<exists>rest. s = p @ rest"
  then show "startswith s p" by (auto simp: startswith_def)
qed

lemma request_image_prompt_field:
  "request_image w p idx (config\<lparr>prompt := x\<rparr>) = request_image w p idx config"
proof -
  have "request_params (config\<lparr>prompt := x\<rparr>) p = request_params config p"
    by (simp add: request_params_def)
  then show ?thesis
    by (intro ext) (simp add: request_image_def request_image_try_def Let_def)
qed

lemma generate_images_prompt_field:
  "generate_images w (config\<lparr>prompt := x\<rparr>) prompts sched s = generate_images w config prompts sched s"
  by (simp add: generate_images_def request_tasks_def request_image_prompt_field)

lemma select_prompts_empty:
  "select_prompts (config\<lparr>prompt := Some []\<rparr>) g = pick_prompts (count config) g"
  "select_prompts (config\<lparr>prompt := None\<rparr>) g = pick_prompts (count config) g"
  by (simp_all add: select_prompts_def)

lemma pick_prompts_not_empty_strings:
  assumes "1 \<le> n"
  shows "pick_prompts n g \<noteq> replicate (nat n) []"
proof
  assume eq: "pick_prompts n g = replicate (nat n) []"
  from assms have "0 < nat n" by simp
  then have "[] \<in> set (replicate (nat n) ([]::pystr))" by simp
  then have "assembled []" using eq pick_prompts_assembled by metis
  then show False using assembled_nonempty by blast
qed

lemma AppConfig_prompt_field:
  "AppConfig (a\<lparr>arg_prompt := x\<rparr>) = map_sum id (\<lambda>c. c\<lparr>prompt := x\<rparr>) (AppConfig a)"
  by (simp add: AppConfig_def)

lemma async_main_prompt_empty:
  "async_main env (a\<lparr>arg_prompt := Some []\<rparr>) w g sched s
   = async_main env (a\<lparr>arg_prompt := None\<rparr>) w g sched s"
proof (cases "AppConfig a")
  case (Inl e)
  then show ?thesis
    by (simp add: async_main_def AppConfig_prompt_field split: sum.split)
next
  case (Inr c)
  then show ?thesis
    by (simp add: async_main_def AppConfig_prompt_field generate_images_prompt_field
        select_prompts_empty split: sum.split)
qed


lemma no_data_example: "no_image_data no_data_world example_config 1 (str ''a red bicycle'')"
  by (simp add: no_image_data_def no_data_world_def reply_without_data_def)




section \<open>Calls made to the API\<close>

lemma length_completion_order: "length (completion_order sched ps) = length ps"
proof (induction sched ps rule: completion_order.induct)
  case (1 sched)
  show ?case by simp
next
  case (2 sched t ts)
  let ?p = "t # ts"
  let ?k = "case sched of [] \<Rightarrow> 0 | c # _ \<Rightarrow> c mod length ?p"
  have k: "?k < length ?p"
    by (simp split: list.split)
  have ih: "length (completion_order (tl sched) (take ?k ?p @ drop (Suc ?k) ?p))
            = length (take ?k ?p @ drop (Suc ?k) ?p)"
    by (rule 2 [OF refl refl])
  have len: "length (take ?k ?p @ drop (Suc ?k) ?p) = length ts"
    using k by (simp only: length_append length_take length_drop) simp
  have "length (completion_order sched (t # ts))
        = Suc (length (completion_order (tl sched) (take ?k ?p @ drop (Suc ?k) ?p)))"
    by (subst completion_order_step [of sched t ts]) (rule length_Cons)
  also have "\<dots> = Suc (length (take ?k ?p @ drop (Suc ?k) ?p))"
    by (simp only: ih)
  also have "\<dots> = length (t # ts)"
    unfolding len by simp
  finally show ?case .
qed

lemma request_image_sent:
  "sent (snd (request_image w p idx config s)) = sent s @ [(idx, request_params config p)]"
  by (rule request_image_cases [where w = w and config = config and idx = idx and p = p])
     (simp_all add: advance_def api_call_def write_bytes_def console_print_def)

lemma run_tasks_sent:
  assumes "\<And>i t s. (i, t) \<in> set ts \<Longrightarrow> sent (snd (t s)) = sent s @ [c t]"
  shows "sent (snd (run_tasks ts s)) = sent s @ map (\<lambda>(i, t). c t) ts"
  using assms
proof (induction ts arbitrary: s)
  case Nil
  show ?case by simp
next
  case (Cons a ts)
  obtain i t where a: "a = (i, t)" by (cases a)
  have 1: "sent (snd (t s)) = sent s @ [c t]" using Cons.prems [of i t s] a by simp
  have 2: "sent (snd (run_tasks ts (snd (t s)))) = sent (snd (t s)) @ map (\<lambda>(i, t). c t) ts"
  proof (rule Cons.IH)
    fix j u s'
    assume "(j, u) \<in> set ts"
    then show "sent (snd (u s')) = sent s' @ [c u]" using Cons.prems [of j u s'] by simp
  qed
  have "snd (run_tasks (a # ts) s) = snd (run_tasks ts (snd (t s)))"
    unfolding a by (rule run_tasks_snd)
  then show ?case using 1 2 by (simp add: a)
qed

lemma gather_sent:
  assumes "\<And>t s. t \<in> set tasks \<Longrightarrow> sent (snd (t s)) = sent s @ [c t]"
  shows "\<exists>order. set order = set tasks \<and> length order = length tasks
           \<and> sent (snd (gather tasks sched s)) = sent s @ map c order"
proof -
  let ?ps = "zip [0..<length tasks] tasks"
  let ?ord = "completion_order sched ?ps"
  have set_ord: "set ?ord = set ?ps" by (rule set_completion_order)
  have snd_ps: "snd ` set ?ps = set tasks"
    by (metis length_upt map_snd_zip minus_nat.diff_0 set_map)
  have "sent (snd (run_tasks ?ord s)) = sent s @ map (\<lambda>(i, t). c t) ?ord"
  proof (rule run_tasks_sent)
    fix i t s
    assume "(i, t) \<in> set ?ord"
    then have "t \<in> set tasks" using set_ord snd_ps by force
    then show "sent (snd (t s)) = sent s @ [c t]" by (rule assms)
  qed
  then have "sent (snd (gather tasks sched s)) = sent s @ map c (map snd ?ord)"
    by (simp add: gather_state case_prod_beta comp_def)
  moreover have "set (map snd ?ord) = set tasks"
    using set_ord snd_ps by simp
  moreover have "length (map snd ?ord) = length tasks"
    by (simp add: length_completion_order)
  ultimately show ?thesis by blast
qed

lemma distinct_same_set:
  assumes "distinct xs" and "set ys = set xs" and "length ys = length xs"
  shows "distinct ys"
proof (rule card_distinct)
  have "card (set ys) = card (set xs)" by (simp only: assms(2))
  also have "\<dots> = length xs" using assms(1) by (rule distinct_card)
  finally show "card (set ys) = length ys" by (simp only: assms(3))
qed

lemma distinct_enumerate_start: "distinct (map fst (enumerate_start n xs))"
  by (simp add: enumerate_start_eq comp_def distinct_map inj_on_def)

lemma indices_enumerate_start: "fst ` set (enumerate_start 1 xs) = {1..int (length xs)}"
proof (rule set_eqI)
  fix x :: int
  show "x \<in> fst ` set (enumerate_start 1 xs) \<longleftrightarrow> x \<in> {1..int (length xs)}"
  proof
    assume "x \<in> fst ` set (enumerate_start 1 xs)"
    then show "x \<in> {1..int (length xs)}" by (auto simp: enumerate_start_eq)
  next
    assume x: "x \<in> {1..int (length xs)}"
    then have "nat (x - 1) < length xs" and "x = 1 + int (nat (x - 1))" by auto
    then have "nat (x - 1) \<in> set [0..<length xs]"
      and "(x, xs ! nat (x - 1)) = (\<lambda>i. (1 + int i, xs ! i)) (nat (x - 1))" by simp_all
    then have "(x, xs ! nat (x - 1)) \<in> (\<lambda>i. (1 + int i, xs ! i)) ` set [0..<length xs]"
      by (simp only: image_eqI)
    then have "(x, xs ! nat (x - 1)) \<in> set (enumerate_start 1 xs)"
      by (simp only: enumerate_start_eq set_map)
    then show "x \<in> fst ` set (enumerate_start 1 xs)" by force
  qed
qed

lemma generate_images_sent:
  "\<exists>calls. sent (snd (generate_images w config prompts sched s)) = sent s @ calls
     \<and> set calls = call_of config ` set (enumerate_start 1 prompts)
     \<and> length calls = length prompts
     \<and> distinct (map fst calls)"
proof -
  let ?c = "\<lambda>t::item option task. hd (sent (snd (t init_state)))"
  let ?T = "\<lambda>(idx, p). request_image w p idx config"
  let ?xs = "enumerate_start 1 prompts"
  have c: "?c (request_image w p idx config) = (idx, request_params config p)" for idx p
    by (simp add: request_image_sent init_state_def)
  have cT: "?c (?T x) = call_of config x" for x
    by (cases x) (simp add: c call_of_def)
  have tasks: "request_tasks w config prompts = map ?T ?xs"
    by (simp add: request_tasks_def)
  have "\<exists>order. set order = set (request_tasks w config prompts)
          \<and> length order = length (request_tasks w config prompts)
          \<and> sent (snd (gather (request_tasks w config prompts) sched s)) = sent s @ map ?c order"
  proof (rule gather_sent)
    fix t s'
    assume "t \<in> set (request_tasks w config prompts)"
    then obtain idx p where "t = request_image w p idx config"
      using request_tasks_member by blast
    then show "sent (snd (t s')) = sent s' @ [?c t]"
      by (simp add: request_image_sent init_state_def)
  qed
  then obtain order where o: "set order = set (request_tasks w config prompts)"
    and l: "length order = length (request_tasks w config prompts)"
    and s: "sent (snd (gather (request_tasks w config prompts) sched s)) = sent s @ map ?c order"
    by blast
  have "?c ` set order = ?c ` (?T ` set ?xs)"
    by (simp only: o tasks set_map)
  also have "\<dots> = (\<lambda>x. ?c (?T x)) ` set ?xs"
    by (simp only: image_image)
  also have "\<dots> = call_of config ` set ?xs"
    by (simp only: cT)
  finally have calls: "set (map ?c order) = call_of config ` set ?xs"
    by (simp only: set_map)
  have len: "length (map ?c order) = length prompts"
    by (simp add: l tasks length_enumerate_start)
  have "fst ` call_of config ` set ?xs = fst ` set ?xs"
    by (auto simp: call_of_def image_iff split: prod.splits) force+
  then have "set (map fst (map ?c order)) = set (map fst ?xs)"
    using calls by (simp only: set_map) 
  moreover have "length (map fst (map ?c order)) = length (map fst ?xs)"
    using len by (simp add: length_enumerate_start)
  ultimately have "distinct (map fst (map ?c order))"
    using distinct_enumerate_start by (rule distinct_same_set [rotated])
  with s calls len show ?thesis
    by (simp only: generate_images_state) blast
qed

lemma generate_images_sent_indices:
  assumes "sent s = []"
  shows "distinct (map fst (sent (snd (generate_images w config prompts sched s))))"
    and "fst ` set (sent (snd (generate_images w config prompts sched s))) = {1..int (length prompts)}"
    and "length (sent (snd (generate_images w config prompts sched s))) = length prompts"
proof -
  obtain calls where c: "sent (snd (generate_images w config prompts sched s)) = sent s @ calls"
     and s: "set calls = call_of config ` set (enumerate_start 1 prompts)"
     and l: "length calls = length prompts"
     and d: "distinct (map fst calls)"
    using generate_images_sent by blast
  from c assms have e: "sent (snd (generate_images w config prompts sched s)) = calls" by simp
  show "distinct (map fst (sent (snd (generate_images w config prompts sched s))))"
    using d by (simp only: e)
  show "length (sent (snd (generate_images w config prompts sched s))) = length prompts"
    using l by (simp only: e)
  have "fst ` call_of config ` set (enumerate_start 1 prompts) = fst ` set (enumerate_start 1 prompts)"
    by (auto simp: call_of_def image_iff split: prod.splits) force+
  then show "fst ` set (sent (snd (generate_images w config prompts sched s))) = {1..int (length prompts)}"
    by (simp only: e s indices_enumerate_start)
qed

lemma generate_images_sent_params:
  assumes "(idx, ps) \<in> set (sent (snd (generate_images w config prompts sched s)))"
    and "(idx, ps) \<notin> set (sent s)"
  shows "\<exists>p. (idx, p) \<in> set (enumerate_start 1 prompts) \<and> ps = request_params config p"
proof -
  obtain calls where c: "sent (snd (generate_images w config prompts sched s)) = sent s @ calls"
     and s: "set calls = call_of config ` set (enumerate_start 1 prompts)"
    using generate_images_sent by blast
  from assms c have "(idx, ps) \<in> set calls" by simp
  then have "(idx, ps) \<in> call_of config ` set (enumerate_start 1 prompts)" by (simp only: s)
  then show ?thesis by (auto simp: call_of_def)
qed

section \<open>The claims\<close>





text \<open>
  C3 on the code: a response without image data makes \<^verbatim>\<open>request_image\<close> print its
  warning and return without advancing the progress bar, while a rejected request
  and a successful one each advance it by one.
\<close>

theorem missing_image_data_skips_progress:
  "no_image_data no_data_world example_config 1 (str ''a red bicycle'')
   \<and> request_image no_data_world (str ''a red bicycle'') 1 example_config init_state
       = (None, console_print (NoImageData (str ''a red bicycle''))
                  (api_call 1 (request_params example_config (str ''a red bicycle'')) init_state))
   \<and> advanced (snd (request_image no_data_world (str ''a red bicycle'') 1 example_config init_state)) = 0
   \<and> advanced (snd (request_image failing_world (str ''a red bicycle'') 1 example_config init_state)) = 1
   \<and> advanced (snd (request_image example_world (str ''a red bicycle'') 1 example_config init_state)) = 1"
proof -
  have 1: "request_image no_data_world (str ''a red bicycle'') 1 example_config init_state
       = (None, console_print (NoImageData (str ''a red bicycle''))
                  (api_call 1 (request_params example_config (str ''a red bicycle'')) init_state))"
    by (simp add: request_image_def request_image_try_def Let_def no_data_world_def reply_without_data_def)
       (simp add: str_def)
  have 2: "\<not> no_image_data failing_world example_config 1 (str ''a red bicycle'')"
    by (simp add: no_image_data_def failing_world_def reject_all_def)
  have 3: "\<not> no_image_data example_world example_config 1 (str ''a red bicycle'')"
    by (simp add: no_image_data_def example_world_def reject_second_def inline_reply_def str_def)
  have 4: "advanced (snd (request_image no_data_world (str ''a red bicycle'') 1 example_config init_state)) = 0"
    using no_data_example by (simp add: request_image_advanced init_state_def)
  have 5: "advanced (snd (request_image failing_world (str ''a red bicycle'') 1 example_config init_state)) = 1"
    using 2 by (simp add: request_image_advanced init_state_def)
  have 6: "advanced (snd (request_image example_world (str ''a red bicycle'') 1 example_config init_state)) = 1"
    using 3 by (simp add: request_image_advanced init_state_def)
  show ?thesis
    using no_data_example 1 4 5 6 by blast
qed



text \<open>
  C5. \<open>slugify\<close> is idempotent; its result contains only characters of
  \<^verbatim>\<open>[a-z0-9-]\<close>, is not empty and neither starts nor ends with a dash; and it is
  \<^verbatim>\<open>"image"\<close> whenever the input has no alphanumeric character, as for \<^verbatim>\<open>"!!!"\<close>.
\<close>

theorem slugify_idempotent_and_shape:
  "slugify (slugify x) = slugify x
   \<and> (\<forall>c\<in>set (slugify x). az09 c \<or> c = dash)
   \<and> slugify x \<noteq> [] \<and> hd (slugify x) \<noteq> dash \<and> last (slugify x) \<noteq> dash
   \<and> ((\<forall>c\<in>set x. \<not> alnum c) \<longrightarrow> slugify x = str ''image'')
   \<and> slugify (str ''!!!'') = str ''image''"
proof -
  have g: "good (slugify x)" by (rule good_slugify)
  then have "slugify (slugify x) = slugify x" by (rule good_fix)
  moreover have "\<forall>c\<in>set (slugify x). az09 c \<or> c = dash"
    using g nf_set [of "slugify x"] by (auto simp: good_def slugc_def)
  moreover have "slugify x \<noteq> [] \<and> hd (slugify x) \<noteq> dash \<and> last (slugify x) \<noteq> dash"
    using g by (simp add: good_def)
  moreover have "(\<forall>c\<in>set x. \<not> alnum c) \<longrightarrow> slugify x = str ''image''"
    using slugify_no_alnum by blast
  moreover have "slugify (str ''!!!'') = str ''image''"
    by (rule slugify_no_alnum) (simp add: str_def alnum_def)
  ultimately show ?thesis by blast
qed

theorem slugify_idempotent_and_shape_witness:
  "list_all (\<lambda>c. \<not> alnum c) (str ''?! ...'')
   \<and> slugify (str ''?! ...'') = str ''image''
   \<and> slugify (slugify (str ''?! ...'')) = slugify (str ''?! ...'')
   \<and> list_all (\<lambda>c. az09 c \<or> c = dash) (slugify (str ''?! ...''))"
proof -
  have h: "\<forall>c\<in>set (str ''?! ...''). \<not> alnum c"
    by (simp add: str_def alnum_def)
  from slugify_idempotent_and_shape [of "str ''?! ...''"] h show ?thesis
    unfolding list_all_iff by blast
qed

text \<open>
  C6. The file name of a request is its index as three zero-padded digits (for an
  index below 1000), a dash, the first 40 characters of the slug of the prompt and
  \<^verbatim>\<open>.png\<close>; and the file names of a batch, numbered from 1, are pairwise distinct
  whatever the prompts are, equal ones included.
\<close>

theorem filename_shape_and_distinct:
  "(0 \<le> idx \<and> idx < 1000 \<longrightarrow>
      filename idx p =
        [48 + nat idx div 100, 48 + nat idx div 10 mod 10, 48 + nat idx mod 10]
        @ str ''-'' @ take 40 (slugify p) @ str ''.png'')
   \<and> distinct (map (\<lambda>(idx, p). filename idx p) (enumerate_start 1 prompts))"
proof -
  have "filename idx p =
        [48 + nat idx div 100, 48 + nat idx div 10 mod 10, 48 + nat idx mod 10]
        @ str ''-'' @ take 40 (slugify p) @ str ''.png''" if "0 \<le> idx" "idx < 1000"
  proof -
    from that have "nat idx < 1000" by simp
    then show ?thesis
      using that by (simp add: filename_def format_03d_def zfill_digits_lt_1000)
  qed
  then show ?thesis using distinct_filenames by blast
qed

theorem filename_shape_and_distinct_witness:
  "(0 \<le> (7::int) \<and> (7::int) < 1000)
   \<and> filename 7 (str ''a red bicycle'') = str ''007-a-red-bicycle.png''
   \<and> distinct (map (\<lambda>(idx, p). filename idx p)
        (enumerate_start 1 (replicate 3 (str ''a red bicycle''))))"
proof -
  have s: "slugify (str ''a red bicycle'') = str ''a-red-bicycle''"
    by (simp add: slugify_def str_def strip_def lower_def lower_cp_def isspace_def az09_def)
  show ?thesis
    using filename_shape_and_distinct
      [of 7 "str ''a red bicycle''" "replicate 3 (str ''a red bicycle'')"]
    by (simp add: s) (simp add: str_def)
qed

text \<open>
  C7 (as amended). With a non-empty fixed prompt, the prompt source yields that
  prompt as many times as the count says; with no fixed prompt it yields as many
  prompts as the count says, each non-empty and assembled as
  \<^verbatim>\<open>"<style> of <subject>, <lighting>"\<close> from the three vocabularies, none of which
  is empty.
\<close>

theorem select_prompts_fixed_or_assembled:
  "(prompt config = Some p \<and> p \<noteq> [] \<longrightarrow>
      select_prompts config g = replicate (nat (count config)) p)
   \<and> (prompt config = None \<longrightarrow>
        length (select_prompts config g) = nat (count config)
        \<and> (\<forall>q\<in>set (select_prompts config g). q \<noteq> [] \<and> assembled q))
   \<and> styles \<noteq> [] \<and> subjects \<noteq> [] \<and> lighting \<noteq> []"
  using pick_prompts_assembled assembled_nonempty vocabularies_nonempty
  by (auto simp: select_prompts_def pick_prompts_length)

theorem select_prompts_fixed_or_assembled_witness:
  "prompt example_config = Some (str ''a red bicycle'') \<and> str ''a red bicycle'' \<noteq> []
   \<and> select_prompts example_config zero_draws
       = [str ''a red bicycle'', str ''a red bicycle'', str ''a red bicycle'']
   \<and> prompt (example_config\<lparr>prompt := None\<rparr>) = None
   \<and> length (select_prompts (example_config\<lparr>prompt := None\<rparr>) zero_draws) = 3
   \<and> list_all assembled (select_prompts (example_config\<lparr>prompt := None\<rparr>) zero_draws)"
proof -
  have a: "prompt example_config = Some (str ''a red bicycle'') \<and> str ''a red bicycle'' \<noteq> []"
    by (simp add: example_config_def str_def)
  have b: "prompt (example_config\<lparr>prompt := None\<rparr>) = None" by simp
  have c: "nat (count example_config) = 3" "nat (count (example_config\<lparr>prompt := None\<rparr>)) = 3"
    by (simp_all add: example_config_def)
  from select_prompts_fixed_or_assembled [of example_config "str ''a red bicycle''" zero_draws] a
  have "select_prompts example_config zero_draws = replicate 3 (str ''a red bicycle'')"
    by (simp only: c) blast
  moreover from select_prompts_fixed_or_assembled [of "example_config\<lparr>prompt := None\<rparr>" _ zero_draws] b
  have "length (select_prompts (example_config\<lparr>prompt := None\<rparr>) zero_draws) = 3
        \<and> (\<forall>q\<in>set (select_prompts (example_config\<lparr>prompt := None\<rparr>) zero_draws). q \<noteq> [] \<and> assembled q)"
    by (simp only: c) blast
  ultimately show ?thesis using a b by (simp add: list_all_iff eval_nat_numeral)
qed

text \<open>
  C7 as stated fails for a fixed prompt that is the empty string: with count 3 the
  prompt source does not yield three empty prompts.
\<close>

theorem fixed_prompt_counterexample:
  "prompt (example_config\<lparr>prompt := Some []\<rparr>) = Some []
   \<and> select_prompts (example_config\<lparr>prompt := Some []\<rparr>) zero_draws
       \<noteq> replicate (nat (count (example_config\<lparr>prompt := Some []\<rparr>))) []"
proof -
  have "length (select_prompts (example_config\<lparr>prompt := Some []\<rparr>) zero_draws) = 3"
    by (simp add: select_prompts_def pick_prompts_length example_config_def)
  moreover have "q \<noteq> []" if "q \<in> set (select_prompts (example_config\<lparr>prompt := Some []\<rparr>) zero_draws)" for q
    using that pick_prompts_assembled assembled_nonempty by (auto simp: select_prompts_def)
  ultimately have "select_prompts (example_config\<lparr>prompt := Some []\<rparr>) zero_draws \<noteq> replicate 3 []"
    by (metis in_set_replicate length_greater_0_conv length_replicate nth_mem zero_less_numeral)
  then show ?thesis by (simp add: example_config_def)
qed

text \<open>
  C8. The request carries \<^verbatim>\<open>response_format = "b64_json"\<close> exactly when the model name
  starts with \<^verbatim>\<open>dall-e\<close>, that is, when it is \<^verbatim>\<open>dall-e\<close> followed by anything; for every
  other model the key is absent. The other five keys are always sent. Every call a
  batch makes to the API carries these keyword arguments.
\<close>

theorem response_format_only_for_dall_e:
  "request_params config p ''response_format''
     = (if startswith (model config) (str ''dall-e'') then Some (PyStr (str ''b64_json'')) else None)
   \<and> startswith (model config) (str ''dall-e'') = (\<exists>rest. model config = str ''dall-e'' @ rest)
   \<and> dom (request_params config p) - {''response_format''}
       = {''model'', ''prompt'', ''size'', ''quality'', ''n''}
   \<and> ((idx, ps) \<in> set (sent (snd (generate_images w config prompts sched s)))
        \<and> (idx, ps) \<notin> set (sent s) \<longrightarrow>
        ps ''response_format''
          = (if startswith (model config) (str ''dall-e'') then Some (PyStr (str ''b64_json''))
             else None))"
proof -
  have "ps ''response_format''
          = (if startswith (model config) (str ''dall-e'') then Some (PyStr (str ''b64_json''))
             else None)"
    if "(idx, ps) \<in> set (sent (snd (generate_images w config prompts sched s)))"
      and "(idx, ps) \<notin> set (sent s)"
  proof -
    from generate_images_sent_params [OF that] obtain q where "ps = request_params config q"
      by blast
    then show ?thesis by (simp only: request_params_response_format)
  qed
  then show ?thesis
    by (simp add: request_params_response_format request_params_dom startswith_iff)
qed

theorem response_format_only_for_dall_e_witness:
  "request_params (example_config\<lparr>model := str ''dall-e-3''\<rparr>) (str ''a red bicycle'') ''response_format''
     = Some (PyStr (str ''b64_json''))
   \<and> request_params example_config (str ''a red bicycle'') ''response_format'' = None
   \<and> (\<exists>ps. (2, ps) \<in> set (sent (snd (generate_images example_world
                   (example_config\<lparr>model := str ''dall-e-3''\<rparr>) red_bicycles [2, 0] init_state)))
           \<and> (2, ps) \<notin> set (sent init_state)
           \<and> ps ''response_format'' = Some (PyStr (str ''b64_json'')))"
proof -
  let ?config = "example_config\<lparr>model := str ''dall-e-3''\<rparr>"
  let ?s = "snd (generate_images example_world ?config red_bicycles [2, 0] init_state)"
  have 1: "startswith (model ?config) (str ''dall-e'')"
    by (simp add: startswith_def str_def)
  have 2: "\<not> startswith (model example_config) (str ''dall-e'')"
    by (simp add: startswith_def str_def example_config_def)
  have none: "sent init_state = []" by (simp add: init_state_def)
  have "fst ` set (sent ?s) = {1..int (length red_bicycles)}"
    using none by (rule generate_images_sent_indices(2))
  then have "2 \<in> fst ` set (sent ?s)" by (simp add: example_lengths)
  then obtain ps where m: "(2, ps) \<in> set (sent ?s)" by force
  have n: "(2, ps) \<notin> set (sent init_state)" by (simp add: none)
  note a = response_format_only_for_dall_e
    [of ?config "str ''a red bicycle''" 2 ps example_world red_bicycles "[2, 0]" init_state]
  note b = response_format_only_for_dall_e
    [of example_config "str ''a red bicycle''" 2 ps example_world red_bicycles "[2, 0]" init_state]
  from a 1 have 3: "request_params ?config (str ''a red bicycle'') ''response_format''
     = Some (PyStr (str ''b64_json''))" by simp
  from b 2 have 4: "request_params example_config (str ''a red bicycle'') ''response_format'' = None"
    by simp
  from a m n 1 have 5: "ps ''response_format'' = Some (PyStr (str ''b64_json''))" by simp
  from m n 5 have "\<exists>ps. (2, ps) \<in> set (sent ?s) \<and> (2, ps) \<notin> set (sent init_state)
           \<and> ps ''response_format'' = Some (PyStr (str ''b64_json''))" by blast
  with 3 4 show ?thesis by blast
qed



text \<open>
  C10. A fixed prompt that is the empty string is treated as no prompt: the prompt
  source yields the randomly assembled prompts, the same as when the prompt is
  \<^verbatim>\<open>None\<close>, and not the empty prompt repeated; the whole run is the run without
  \<^verbatim>\<open>--prompt\<close>.
\<close>

theorem empty_prompt_means_random_prompts:
  "select_prompts (config\<lparr>prompt := Some []\<rparr>) g = pick_prompts (count config) g
   \<and> select_prompts (config\<lparr>prompt := Some []\<rparr>) g = select_prompts (config\<lparr>prompt := None\<rparr>) g
   \<and> (1 \<le> count config \<longrightarrow>
        select_prompts (config\<lparr>prompt := Some []\<rparr>) g \<noteq> replicate (nat (count config)) [])
   \<and> async_main env (a\<lparr>arg_prompt := Some []\<rparr>) w g sched s
       = async_main env (a\<lparr>arg_prompt := None\<rparr>) w g sched s"
  using pick_prompts_not_empty_strings [of "count config" g]
  by (simp add: select_prompts_empty async_main_prompt_empty)

theorem empty_prompt_means_random_prompts_witness:
  "1 \<le> count example_config
   \<and> select_prompts (example_config\<lparr>prompt := Some []\<rparr>) zero_draws
       = pick_prompts 3 zero_draws
   \<and> select_prompts (example_config\<lparr>prompt := Some []\<rparr>) zero_draws \<noteq> replicate 3 []
   \<and> length (select_prompts (example_config\<lparr>prompt := Some []\<rparr>) zero_draws) = 3"
proof -
  have c: "count example_config = 3" by (simp add: example_config_def)
  then have h: "1 \<le> count example_config" by simp
  have n: "nat (count example_config) = 3" by (simp add: c)
  from empty_prompt_means_random_prompts [of example_config zero_draws] h
  have 1: "select_prompts (example_config\<lparr>prompt := Some []\<rparr>) zero_draws
           = pick_prompts (count example_config) zero_draws"
    and 2: "select_prompts (example_config\<lparr>prompt := Some []\<rparr>) zero_draws
           \<noteq> replicate (nat (count example_config)) []"
    by blast+
  from 1 have 3: "length (select_prompts (example_config\<lparr>prompt := Some []\<rparr>) zero_draws) = 3"
    by (simp add: pick_prompts_length c)
  from 1 2 3 h show ?thesis by (simp only: c n) simp
qed

end
